theory Spec2Isabelle
  imports Main
begin

section \<open>Exceptions\<close>

text \<open>
  The functions of \<^verbatim>\<open>AwsSession\<close> modelled here raise \<^verbatim>\<open>ValueError\<close> (with a
  message) and, inside \<^verbatim>\<open>parse_s3_uri\<close>, \<^verbatim>\<open>AssertionError\<close>; a missing key of a response
  dictionary raises \<^verbatim>\<open>KeyError\<close>, \<^verbatim>\<open>Path.glob\<close> raises \<^verbatim>\<open>ValueError\<close> and
  \<^verbatim>\<open>NotImplementedError\<close>, and the S3 client raises \<^verbatim>\<open>ClientError\<close>. A function that
  can raise returns \<open>error + 'a\<close>, with \<open>Inl\<close> the exception.

  A Python \<^verbatim>\<open>str\<close> is modelled as a \<open>string\<close>. Every character the code inspects
  (\<^verbatim>\<open>.\<close>, \<^verbatim>\<open>/\<close>, \<^verbatim>\<open>:\<close>, the letters of the schemes, the line feed) is ASCII.
\<close>

datatype error =
    ValueError string
  | AssertionError
  | KeyError string
  | NotImplementedError string
  | ClientError string

section \<open>Regular expressions as \<^verbatim>\<open>re.match\<close> reads them\<close>

text \<open>
  The two patterns of \<^verbatim>\<open>parse_s3_uri\<close> use: literal text, the anchors \<^verbatim>\<open>^\<close> and \<^verbatim>\<open>$\<close>,
  one character of a class, a greedy \<^verbatim>\<open>+\<close> over a class, and capturing groups. A pattern
  is the list of its tokens in the order they are written.

  Without flags, \<^verbatim>\<open>.\<close> is every character but the line feed, a negated class
  \<^verbatim>\<open>[^...]\<close> is every character not listed (the line feed included), and \<^verbatim>\<open>$\<close> holds
  at the end of the string and just before a line feed that ends the string.
\<close>

datatype cls = Dot | NoneOf string | OneOf string

fun in_cls :: "cls \<Rightarrow> char \<Rightarrow> bool" where
  "in_cls Dot c = (c \<noteq> CHR 0x0A)"
| "in_cls (NoneOf cs) c = (c \<notin> set cs)"
| "in_cls (OneOf cs) c = (c \<in> set cs)"

datatype tok = Bol | Eol | Str string | One cls | Plus cls | GOpen | GClose

fun first_some :: "'a option list \<Rightarrow> 'a option" where
  "first_some [] = None"
| "first_some (Some x # xs) = Some x"
| "first_some (None # xs) = first_some xs"

text \<open>
  \<open>rmatch ts pre rest mark caps\<close> matches the tokens \<open>ts\<close> against \<open>rest\<close>, where \<open>pre\<close>
  is the text consumed so far, \<open>mark\<close> the position where the open group started and
  \<open>caps\<close> the groups closed so far. A greedy \<^verbatim>\<open>+\<close> tries the longest run first and gives
  characters back one at a time (backtracking); the first success is the match.
\<close>

fun rmatch :: "tok list \<Rightarrow> string \<Rightarrow> string \<Rightarrow> nat \<Rightarrow> string list \<Rightarrow> string list option" where
  "rmatch [] pre rest mark caps = Some caps"
| "rmatch (Bol # ts) pre rest mark caps =
     (if pre = [] then rmatch ts pre rest mark caps else None)"
| "rmatch (Eol # ts) pre rest mark caps =
     (if rest = [] \<or> rest = [CHR 0x0A] then rmatch ts pre rest mark caps else None)"
| "rmatch (Str l # ts) pre rest mark caps =
     (if take (length l) rest = l
      then rmatch ts (pre @ l) (drop (length l) rest) mark caps else None)"
| "rmatch (One c # ts) pre rest mark caps =
     (case rest of [] \<Rightarrow> None
      | x # xs \<Rightarrow> if in_cls c x then rmatch ts (pre @ [x]) xs mark caps else None)"
| "rmatch (Plus c # ts) pre rest mark caps =
     first_some (map (\<lambda>n. rmatch ts (pre @ take n rest) (drop n rest) mark caps)
                     (rev [1 ..< Suc (length (takeWhile (in_cls c) rest))]))"
| "rmatch (GOpen # ts) pre rest mark caps = rmatch ts pre rest (length pre) caps"
| "rmatch (GClose # ts) pre rest mark caps = rmatch ts pre rest mark (caps @ [drop mark pre])"

text \<open>\<^verbatim>\<open>re.match(pattern, s)\<close> followed by \<^verbatim>\<open>.groups()\<close>; \<open>None\<close> when there is no match.\<close>

definition re_match :: "tok list \<Rightarrow> string \<Rightarrow> string list option" where
  "re_match ts s = rmatch ts [] s 0 []"

text \<open>\<^verbatim>\<open>^https://([^./]+)\.[sS]3\.[^/]+/(.+)$\<close>\<close>

definition object_url_re :: "tok list" where
  "object_url_re =
     [Bol, Str ''https://'', GOpen, Plus (NoneOf ''./''), GClose, Str ''.'',
      One (OneOf ''sS''), Str ''3'', Str ''.'', Plus (NoneOf ''/''), Str ''/'',
      GOpen, Plus Dot, GClose, Eol]"

text \<open>\<^verbatim>\<open>^[sS]3://([^./]+)/(.+)$\<close>\<close>

definition s3_uri_re :: "tok list" where
  "s3_uri_re =
     [Bol, One (OneOf ''sS''), Str ''3://'', GOpen, Plus (NoneOf ''./''), GClose, Str ''/'',
      GOpen, Plus Dot, GClose, Eol]"

section \<open>S3 URIs\<close>

text \<open>
  \<^verbatim>\<open>parse_s3_uri\<close>: the object-URL pattern is tried first, then the S3-URI pattern
  (\<^verbatim>\<open>or\<close> of two match objects; a match object is truthy). No match raises
  \<^verbatim>\<open>AssertionError\<close>; unpacking \<^verbatim>\<open>groups()\<close> into two names raises \<^verbatim>\<open>ValueError\<close> unless
  there are exactly two groups. Both are caught and raised again as the
  \<^verbatim>\<open>ValueError\<close> of the invalid URI.
\<close>

definition unpack2 :: "string list \<Rightarrow> error + (string \<times> string)" where
  "unpack2 groups =
     (case groups of [bucket, key] \<Rightarrow> Inr (bucket, key)
      | _ \<Rightarrow> Inl (ValueError ''wrong number of values to unpack''))"

definition parse_s3_uri :: "string \<Rightarrow> error + (string \<times> string)" where
  "parse_s3_uri s3_uri =
     (case (case (case re_match object_url_re s3_uri of
                    Some m \<Rightarrow> Some m
                  | None \<Rightarrow> re_match s3_uri_re s3_uri) of
              None \<Rightarrow> Inl AssertionError
            | Some groups \<Rightarrow> unpack2 groups) of
        Inl AssertionError \<Rightarrow> Inl (ValueError (''Not a valid S3 uri: '' @ s3_uri))
      | Inl (ValueError m) \<Rightarrow> Inl (ValueError (''Not a valid S3 uri: '' @ s3_uri))
      | Inl e \<Rightarrow> Inl e
      | Inr (bucket, key) \<Rightarrow> Inr (bucket, key))"

text \<open>
  \<^verbatim>\<open>is_s3_uri\<close> catches \<^verbatim>\<open>ValueError\<close> only; any other exception of \<^verbatim>\<open>parse_s3_uri\<close>
  would leave it.
\<close>

definition is_s3_uri :: "string \<Rightarrow> error + bool" where
  "is_s3_uri string =
     (case parse_s3_uri string of
        Inl (ValueError m) \<Rightarrow> Inr False
      | Inl e \<Rightarrow> Inl e
      | Inr r \<Rightarrow> Inr True)"

text \<open>\<^verbatim>\<open>sep.join(xs)\<close>\<close>

fun join :: "string \<Rightarrow> string list \<Rightarrow> string" where
  "join sep [] = []"
| "join sep [x] = x"
| "join sep (x # y # ys) = x @ sep @ join sep (y # ys)"

definition construct_s3_uri :: "string \<Rightarrow> string list \<Rightarrow> error + string" where
  "construct_s3_uri bucket dirs =
     (if dirs = [] then Inl (ValueError (''Not a valid S3 location: s3://'' @ bucket))
      else Inr (''s3://'' @ bucket @ ''/'' @ join ''/'' dirs))"

section \<open>\<^verbatim>\<open>str.replace\<close>\<close>

text \<open>
  \<^verbatim>\<open>s.replace(old, new)\<close> and \<^verbatim>\<open>s.replace(old, new, count)\<close>: the occurrences of
  \<open>old\<close> are found from left to right without overlap and replaced, at most \<open>count\<close>
  of them when a count is given (\<open>None\<close> is no count). An empty \<open>old\<close> occurs before
  every character and at the end.
\<close>

fun dec :: "nat option \<Rightarrow> nat option" where
  "dec None = None"
| "dec (Some n) = Some (n - 1)"

fun replace_gaps :: "string \<Rightarrow> nat option \<Rightarrow> string \<Rightarrow> string" where
  "replace_gaps new cnt [] = (if cnt = Some 0 then [] else new)"
| "replace_gaps new cnt (c # cs) =
     (if cnt = Some 0 then c # cs else new @ c # replace_gaps new (dec cnt) cs)"

fun replace_occ :: "string \<Rightarrow> string \<Rightarrow> nat option \<Rightarrow> string \<Rightarrow> string" where
  "replace_occ old new cnt [] = []"
| "replace_occ old new cnt (c # cs) =
     (if cnt = Some 0 then c # cs
      else if take (length old) (c # cs) = old
      then new @ replace_occ old new (dec cnt) (drop (length old - 1) cs)
      else c # replace_occ old new cnt cs)"

definition str_replace :: "string \<Rightarrow> string \<Rightarrow> nat option \<Rightarrow> string \<Rightarrow> string" where
  "str_replace old new cnt s =
     (if old = [] then replace_gaps new cnt s else replace_occ old new cnt s)"

section \<open>The S3 client\<close>

text \<open>
  The client of \<^verbatim>\<open>boto3\<close> is outside the repository. Its state is the list of the
  requests made so far; what a request returns is a function of that history and of the
  request's arguments, so that a client is a record of such functions. Every function of
  the session takes the history and returns it extended by the requests it made.
\<close>

datatype call =
    ListObjectsV2 string string "string option"
  | Copy string string string string
  | UploadFile string string string

record list_objects_response =
  contents :: "string list option"
  is_truncated :: "bool option"
  next_continuation_token :: "string option"

record s3_client =
  list_objects_v2 :: "call list \<Rightarrow> string \<Rightarrow> string \<Rightarrow> string option \<Rightarrow> error + list_objects_response"
  copy :: "call list \<Rightarrow> string \<Rightarrow> string \<Rightarrow> string \<Rightarrow> string \<Rightarrow> error + unit"
  upload_file :: "call list \<Rightarrow> string \<Rightarrow> string \<Rightarrow> string \<Rightarrow> error + unit"

text \<open>
  \<^verbatim>\<open>list_keys\<close>: the first page, then one more page while the last one is truncated.
  The loop ends only when the service returns a page that is not truncated, so the
  function is partial: \<open>None\<close> is the run that never returns.
\<close>

partial_function (option) list_keys_pages ::
  "s3_client \<Rightarrow> string \<Rightarrow> string \<Rightarrow> list_objects_response \<Rightarrow> string list \<Rightarrow> call list \<Rightarrow>
     ((error + string list) \<times> call list) option" where
  "list_keys_pages cl bucket prefix list_objects keys t =
     (case is_truncated list_objects of
        None \<Rightarrow> Some (Inl (KeyError ''IsTruncated''), t)
      | Some truncated \<Rightarrow>
          if truncated then
            (case next_continuation_token list_objects of
               None \<Rightarrow> Some (Inl (KeyError ''NextContinuationToken''), t)
             | Some token \<Rightarrow>
                 (case list_objects_v2 cl t bucket prefix (Some token) of
                    Inl e \<Rightarrow> Some (Inl e, t @ [ListObjectsV2 bucket prefix (Some token)])
                  | Inr page \<Rightarrow>
                      (case contents page of
                         None \<Rightarrow>
                           Some (Inl (KeyError ''Contents''),
                                 t @ [ListObjectsV2 bucket prefix (Some token)])
                       | Some ks \<Rightarrow>
                           list_keys_pages cl bucket prefix page (keys @ ks)
                             (t @ [ListObjectsV2 bucket prefix (Some token)]))))
          else Some (Inr keys, t))"

definition list_keys ::
  "s3_client \<Rightarrow> string \<Rightarrow> string \<Rightarrow> call list \<Rightarrow> ((error + string list) \<times> call list) option" where
  "list_keys cl bucket prefix t =
     (case list_objects_v2 cl t bucket prefix None of
        Inl e \<Rightarrow> Some (Inl e, t @ [ListObjectsV2 bucket prefix None])
      | Inr list_objects \<Rightarrow>
          (case contents list_objects of
             None \<Rightarrow> Some (Inl (KeyError ''Contents''), t @ [ListObjectsV2 bucket prefix None])
           | Some keys \<Rightarrow>
               list_keys_pages cl bucket prefix list_objects keys
                 (t @ [ListObjectsV2 bucket prefix None])))"

section \<open>Copying in S3\<close>

definition copy_s3_object ::
  "s3_client \<Rightarrow> string \<Rightarrow> string \<Rightarrow> call list \<Rightarrow> (error + unit) \<times> call list" where
  "copy_s3_object cl source_s3_uri destination_s3_uri t =
     (if source_s3_uri = destination_s3_uri then (Inr (), t)
      else case parse_s3_uri source_s3_uri of
        Inl e \<Rightarrow> (Inl e, t)
      | Inr (source_bucket, source_key) \<Rightarrow>
          (case parse_s3_uri destination_s3_uri of
             Inl e \<Rightarrow> (Inl e, t)
           | Inr (destination_bucket, destination_key) \<Rightarrow>
               (copy cl t source_bucket source_key destination_bucket destination_key,
                t @ [Copy source_bucket source_key destination_bucket destination_key])))"

text \<open>The loop of \<^verbatim>\<open>copy_s3_directory\<close> over the keys; an exception of the client ends it.\<close>

fun copy_keys ::
  "s3_client \<Rightarrow> string \<Rightarrow> string \<Rightarrow> string \<Rightarrow> string \<Rightarrow> string list \<Rightarrow> call list \<Rightarrow>
     (error + unit) \<times> call list" where
  "copy_keys cl source_bucket source_prefix destination_bucket destination_prefix [] t =
     (Inr (), t)"
| "copy_keys cl source_bucket source_prefix destination_bucket destination_prefix (key # keys) t =
     (case copy cl t source_bucket key destination_bucket
             (str_replace source_prefix destination_prefix (Some 1) key) of
        Inl e \<Rightarrow>
          (Inl e, t @ [Copy source_bucket key destination_bucket
                         (str_replace source_prefix destination_prefix (Some 1) key)])
      | Inr u \<Rightarrow>
          copy_keys cl source_bucket source_prefix destination_bucket destination_prefix keys
            (t @ [Copy source_bucket key destination_bucket
                    (str_replace source_prefix destination_prefix (Some 1) key)]))"

definition copy_s3_directory ::
  "s3_client \<Rightarrow> string \<Rightarrow> string \<Rightarrow> call list \<Rightarrow> ((error + unit) \<times> call list) option" where
  "copy_s3_directory cl source_s3_path destination_s3_path t =
     (if source_s3_path = destination_s3_path then Some (Inr (), t)
      else case parse_s3_uri source_s3_path of
        Inl e \<Rightarrow> Some (Inl e, t)
      | Inr (source_bucket, source_prefix) \<Rightarrow>
          (case parse_s3_uri destination_s3_path of
             Inl e \<Rightarrow> Some (Inl e, t)
           | Inr (destination_bucket, destination_prefix) \<Rightarrow>
               (case list_keys cl source_bucket source_prefix t of
                  None \<Rightarrow> None
                | Some (Inl e, t') \<Rightarrow> Some (Inl e, t')
                | Some (Inr source_keys, t') \<Rightarrow>
                    Some (copy_keys cl source_bucket source_prefix destination_bucket
                            destination_prefix source_keys t'))))"

section \<open>Paths\<close>

text \<open>
  \<^verbatim>\<open>pathlib\<close> on a POSIX host. A path is a root (\<^verbatim>\<open>/\<close>, \<^verbatim>\<open>//\<close> for exactly two leading
  slashes, or none) and the components between the slashes, without the empty ones and
  without \<^verbatim>\<open>.\<close>; its text is the root followed by the components joined by \<^verbatim>\<open>/\<close>, and
  \<^verbatim>\<open>.\<close> for the path with neither. \<^verbatim>\<open>as_posix()\<close> and \<^verbatim>\<open>str()\<close> give that text.
\<close>

fun split_on :: "char \<Rightarrow> string \<Rightarrow> string list" where
  "split_on sep [] = [[]]"
| "split_on sep (c # cs) =
     (if c = sep then [] # split_on sep cs
      else (case split_on sep cs of [] \<Rightarrow> [[c]] | w # ws \<Rightarrow> (c # w) # ws))"

definition path_root :: "string \<Rightarrow> string" where
  "path_root p =
     (if take 2 p = ''//'' \<and> take 3 p \<noteq> ''///'' then ''//''
      else if take 1 p = ''/'' then ''/'' else [])"

definition path_parts :: "string \<Rightarrow> string list" where
  "path_parts p = filter (\<lambda>x. x \<noteq> [] \<and> x \<noteq> ''.'') (split_on CHR ''/'' p)"

definition path_str :: "string \<Rightarrow> string list \<Rightarrow> string" where
  "path_str root parts = (if root = [] \<and> parts = [] then ''.'' else root @ join ''/'' parts)"

definition as_posix :: "string \<Rightarrow> string" where
  "as_posix p = path_str (path_root p) (path_parts p)"

definition is_absolute :: "string \<Rightarrow> bool" where
  "is_absolute p = (path_root p \<noteq> [])"

section \<open>The file tree and \<^verbatim>\<open>Path.glob\<close>\<close>

text \<open>
  A directory is the list of its entries, in the order \<^verbatim>\<open>scandir\<close> gives them. The
  file systems of the model hold regular files and directories, without symbolic links.
  A place in the tree is the list of the names that lead to it from the root; the parent
  of a place is the place without its last name, and the root is its own parent.
\<close>

datatype node = File | Dir "(string \<times> node) list"

fun node_at :: "node \<Rightarrow> string list \<Rightarrow> node option" where
  "node_at n [] = Some n"
| "node_at File (c # cs) = None"
| "node_at (Dir es) (c # cs) =
     (case map_of es c of None \<Rightarrow> None | Some m \<Rightarrow> node_at m cs)"

fun is_dir :: "node \<Rightarrow> bool" where
  "is_dir File = False"
| "is_dir (Dir es) = True"

text \<open>
  \<^verbatim>\<open>fnmatch\<close> on one component. In a pattern without a bracket, \<^verbatim>\<open>*\<close> is any run of
  characters, \<^verbatim>\<open>?\<close> any one character and every other character itself. How a
  pattern with \<^verbatim>\<open>[\<close> is read (character classes, ranges, a bracket that is never
  closed) is the library's business and differs between its versions: it is the
  parameter \<open>brackets\<close> of the model.
\<close>

fun wildcard_match :: "string \<Rightarrow> string \<Rightarrow> bool" where
  "wildcard_match [] [] = True"
| "wildcard_match [] (c # cs) = False"
| "wildcard_match (p # ps) [] = (p = CHR ''*'' \<and> wildcard_match ps [])"
| "wildcard_match (p # ps) (c # cs) =
     (if p = CHR ''*'' then wildcard_match ps (c # cs) \<or> wildcard_match (p # ps) cs
      else if p = CHR ''?'' then wildcard_match ps cs
      else p = c \<and> wildcard_match ps cs)"

definition fnmatch :: "(string \<Rightarrow> string \<Rightarrow> bool) \<Rightarrow> string \<Rightarrow> string \<Rightarrow> bool" where
  "fnmatch brackets pat name =
     (if CHR ''['' \<in> set pat then brackets pat name else wildcard_match pat name)"

definition is_wildcard_pattern :: "string \<Rightarrow> bool" where
  "is_wildcard_pattern pat =
     (CHR ''*'' \<in> set pat \<or> CHR ''?'' \<in> set pat \<or> CHR ''['' \<in> set pat)"

text \<open>
  The directories at and below a directory, parents first (the walk of \<^verbatim>\<open>**\<close>), each
  with the names that lead to it from the start of the walk.
\<close>

fun subdirs :: "node \<Rightarrow> (string list \<times> node) list" where
  "subdirs File = []"
| "subdirs (Dir es) =
     ([], Dir es) # concat (map (\<lambda>e. map (\<lambda>d. (fst e # fst d, snd d)) (subdirs (snd e))) es)"

text \<open>The selector of \<^verbatim>\<open>**\<close> yields a path once, at its first occurrence.\<close>

fun uniq :: "'a list \<Rightarrow> 'a list" where
  "uniq [] = []"
| "uniq (x # xs) = x # filter (\<lambda>y. y \<noteq> x) (uniq xs)"

text \<open>
  \<open>select_from brackets root pats shown loc n\<close>: the paths that the pattern components
  \<open>pats\<close> select from the directory \<open>n\<close>, which is at the place \<open>loc\<close> of the tree
  \<open>root\<close> and whose path, as \<^verbatim>\<open>pathlib\<close> writes it, has the components \<open>shown\<close>. The
  component \<^verbatim>\<open>**\<close> walks the directories below, a component with a wildcard is matched
  against the entries of the directory, and any other component is looked up by name,
  \<^verbatim>\<open>..\<close> being the parent. A component that is not the last selects directories only.
\<close>

fun select_from ::
  "(string \<Rightarrow> string \<Rightarrow> bool) \<Rightarrow> node \<Rightarrow> string list \<Rightarrow> string list \<Rightarrow> string list \<Rightarrow> node \<Rightarrow>
     (string list \<times> node) list" where
  "select_from brackets root [] shown loc n = [(shown, n)]"
| "select_from brackets root (pat # pats) shown loc File = []"
| "select_from brackets root (pat # pats) shown loc (Dir es) =
     (if pat = ''**''
      then uniq (concat (map (\<lambda>d. select_from brackets root pats (shown @ fst d) (loc @ fst d)
                                   (snd d))
                          (subdirs (Dir es))))
      else if is_wildcard_pattern pat
      then concat (map (\<lambda>e. if fnmatch brackets pat (fst e) \<and> (pats = [] \<or> is_dir (snd e))
                              then select_from brackets root pats (shown @ [fst e])
                                     (loc @ [fst e]) (snd e)
                              else []) es)
      else (case (if pat = ''..'' then node_at root (butlast loc) else map_of es pat) of
              None \<Rightarrow> []
            | Some m \<Rightarrow>
                if pats = [] \<or> is_dir m
                then select_from brackets root pats (shown @ [pat])
                       (if pat = ''..'' then butlast loc else loc @ [pat]) m
                else []))"

fun contains :: "string \<Rightarrow> string \<Rightarrow> bool" where
  "contains sub [] = (sub = [])"
| "contains sub (c # cs) = (take (length sub) (c # cs) = sub \<or> contains sub cs)"

text \<open>
  \<^verbatim>\<open>Path.glob\<close> from the directory at the place \<open>loc\<close>; a place that is no directory
  yields nothing.
\<close>

definition glob ::
  "(string \<Rightarrow> string \<Rightarrow> bool) \<Rightarrow> node \<Rightarrow> string list \<Rightarrow> string \<Rightarrow>
     error + (string list \<times> node) list" where
  "glob brackets root loc pattern =
     (if pattern = [] then Inl (ValueError ''Unacceptable pattern'')
      else if path_root pattern \<noteq> []
      then Inl (NotImplementedError ''Non-relative patterns are unsupported'')
      else if list_ex (\<lambda>pat. pat \<noteq> ''**'' \<and> contains ''**'' pat) (path_parts pattern)
      then Inl (ValueError ''Invalid pattern: ** can only be an entire path component'')
      else Inr (case node_at root loc of
                  None \<Rightarrow> []
                | Some n \<Rightarrow> select_from brackets root (path_parts pattern) [] loc n))"

section \<open>Uploading\<close>

text \<open>
  The file system as \<^verbatim>\<open>upload_local_data\<close> sees it: the tree below the root and the
  place of the current directory in it.
\<close>

record file_system =
  root_tree :: node
  cwd :: "string list"

definition upload_to_s3 ::
  "s3_client \<Rightarrow> string \<Rightarrow> string \<Rightarrow> call list \<Rightarrow> (error + unit) \<times> call list" where
  "upload_to_s3 cl filename s3_uri t =
     (case parse_s3_uri s3_uri of
        Inl e \<Rightarrow> (Inl e, t)
      | Inr (bucket, key) \<Rightarrow>
          (upload_file cl t filename bucket key, t @ [UploadFile filename bucket key]))"

text \<open>
  The body of the loop of \<^verbatim>\<open>upload_local_data\<close> over the paths of one \<^verbatim>\<open>glob\<close>; \<open>anchor\<close>
  is the root of \<^verbatim>\<open>base_dir\<close>. \<^verbatim>\<open>replace\<close> is called without a count.
\<close>

fun upload_files ::
  "s3_client \<Rightarrow> string \<Rightarrow> string \<Rightarrow> string \<Rightarrow> (string list \<times> node) list \<Rightarrow> call list \<Rightarrow>
     (error + unit) \<times> call list" where
  "upload_files cl anchor local_prefix s3_prefix [] t = (Inr (), t)"
| "upload_files cl anchor local_prefix s3_prefix (file # files) t =
     (if snd file = File
      then (case upload_to_s3 cl (path_str anchor (fst file))
                   (str_replace (as_posix local_prefix) s3_prefix None
                      (path_str anchor (fst file))) t of
              (Inl e, t') \<Rightarrow> (Inl e, t')
            | (Inr u, t') \<Rightarrow> upload_files cl anchor local_prefix s3_prefix files t')
      else upload_files cl anchor local_prefix s3_prefix files t)"

text \<open>
  \<^verbatim>\<open>base_dir\<close> is the root for an absolute prefix and the current directory otherwise.
  \<^verbatim>\<open>itertools.chain\<close> of the two generators: the second \<^verbatim>\<open>glob\<close> starts when the first
  is exhausted.
\<close>

definition upload_local_data ::
  "(string \<Rightarrow> string \<Rightarrow> bool) \<Rightarrow> file_system \<Rightarrow> s3_client \<Rightarrow> string \<Rightarrow> string \<Rightarrow> call list \<Rightarrow>
     (error + unit) \<times> call list" where
  "upload_local_data brackets fs cl local_prefix s3_prefix t =
     (let anchor = (if is_absolute local_prefix then path_root local_prefix else []);
          base_dir = (if is_absolute local_prefix then [] else cwd fs);
          relative_prefix =
            (if is_absolute local_prefix then path_str [] (path_parts local_prefix)
             else local_prefix)
      in case glob brackets (root_tree fs) base_dir (relative_prefix @ ''*'') of
           Inl e \<Rightarrow> (Inl e, t)
         | Inr files \<Rightarrow>
             (case upload_files cl anchor local_prefix s3_prefix files t of
                (Inl e, t') \<Rightarrow> (Inl e, t')
              | (Inr u, t') \<Rightarrow>
                  (case glob brackets (root_tree fs) base_dir (relative_prefix @ ''*/**/*'') of
                     Inl e \<Rightarrow> (Inl e, t')
                   | Inr files' \<Rightarrow>
                       upload_files cl anchor local_prefix s3_prefix files' t')))"

text \<open>
  The selection alone: the regular files the two patterns yield, as the text of their
  paths, in the order the loop meets them.
\<close>

definition selected_files ::
  "(string \<Rightarrow> string \<Rightarrow> bool) \<Rightarrow> file_system \<Rightarrow> string \<Rightarrow> error + string list" where
  "selected_files brackets fs local_prefix =
     (let anchor = (if is_absolute local_prefix then path_root local_prefix else []);
          base_dir = (if is_absolute local_prefix then [] else cwd fs);
          relative_prefix =
            (if is_absolute local_prefix then path_str [] (path_parts local_prefix)
             else local_prefix)
      in case glob brackets (root_tree fs) base_dir (relative_prefix @ ''*'') of
           Inl e \<Rightarrow> Inl e
         | Inr files \<Rightarrow>
             (case glob brackets (root_tree fs) base_dir (relative_prefix @ ''*/**/*'') of
                Inl e \<Rightarrow> Inl e
              | Inr files' \<Rightarrow>
                  Inr (map (\<lambda>f. path_str anchor (fst f))
                         (filter (\<lambda>f. snd f = File) (files @ files')))))"

section \<open>The URI forms as the specification words them\<close>

text \<open>
  Path style: \<^verbatim>\<open>s3://<bucket>/<key>\<close>, case-insensitive on the scheme token; virtual-hosted
  style: \<^verbatim>\<open>https://<bucket>.s3.<anything-without-slash>/<key>\<close>, case-insensitive on
  \<^verbatim>\<open>s3\<close>. The bucket contains neither \<^verbatim>\<open>.\<close> nor \<^verbatim>\<open>/\<close>, the key may contain slashes,
  and every part in angle brackets is a non-empty text.
\<close>

definition path_style_form :: "string \<Rightarrow> bool" where
  "path_style_form s =
     (\<exists>c bucket key. s = c # ''3://'' @ bucket @ ''/'' @ key \<and>
        (c = CHR ''s'' \<or> c = CHR ''S'') \<and>
        bucket \<noteq> [] \<and> CHR ''.'' \<notin> set bucket \<and> CHR ''/'' \<notin> set bucket \<and> key \<noteq> [])"

definition virtual_hosted_form :: "string \<Rightarrow> bool" where
  "virtual_hosted_form s =
     (\<exists>bucket c host key. s = ''https://'' @ bucket @ ''.'' @ c # ''3.'' @ host @ ''/'' @ key \<and>
        (c = CHR ''s'' \<or> c = CHR ''S'') \<and>
        bucket \<noteq> [] \<and> CHR ''.'' \<notin> set bucket \<and> CHR ''/'' \<notin> set bucket \<and>
        host \<noteq> [] \<and> CHR ''/'' \<notin> set host \<and> key \<noteq> [])"

section \<open>Observations used by the claims\<close>





section \<open>Example clients and file trees\<close>

text \<open>
  A client whose listing is one page with the given keys and whose other requests
  succeed, and a client whose every request raises.
\<close>

definition listing_client :: "string list \<Rightarrow> s3_client" where
  "listing_client keys =
     \<lparr> list_objects_v2 = (\<lambda>t bucket prefix token.
          Inr \<lparr> contents = Some keys, is_truncated = Some False,
                next_continuation_token = None \<rparr>),
       copy = (\<lambda>t source_bucket source_key bucket key. Inr ()),
       upload_file = (\<lambda>t filename bucket key. Inr ()) \<rparr>"

definition failing_client :: s3_client where
  "failing_client =
     \<lparr> list_objects_v2 = (\<lambda>t bucket prefix token. Inl (ClientError ''AccessDenied'')),
       copy = (\<lambda>t source_bucket source_key bucket key. Inl (ClientError ''AccessDenied'')),
       upload_file = (\<lambda>t filename bucket key. Inl (ClientError ''AccessDenied'')) \<rparr>"

text \<open>The six files of the example in the docstring of \<^verbatim>\<open>upload_local_data\<close>.\<close>

definition docstring_tree :: node where
  "docstring_tree =
     Dir [(''input.csv'', File),
          (''input-2.csv'', File),
          (''input'', Dir [(''data.txt'', File)]),
          (''input-dir'', Dir [(''data.csv'', File)]),
          (''my-input.csv'', File),
          (''my-dir'', Dir [(''input.csv'', File)])]"

text \<open>A file whose name starts like the directory it is in.\<close>

definition nested_tree :: node where
  "nested_tree = Dir [(''input'', Dir [(''input.csv'', File)])]"

text \<open>
  File systems with one of these trees as the directory \<^verbatim>\<open>/home/work\<close>, which is the
  current directory, and a bracket matcher for the examples, none of whose patterns has
  a bracket.
\<close>

definition work_in :: "node \<Rightarrow> file_system" where
  "work_in tree =
     \<lparr> root_tree = Dir [(''home'', Dir [(''work'', tree), (''input-old.csv'', File)])],
       cwd = [''home'', ''work''] \<rparr>"


section \<open>Properties of the matcher\<close>

declare rmatch.simps [simp del]
declare list_keys_pages.simps [code]

lemma first_some_all_None: "(\<And>x. x \<in> set xs \<Longrightarrow> x = None) \<Longrightarrow> first_some xs = None"
proof (induction xs)
  case Nil
  show ?case by simp
next
  case (Cons a xs)
  have "a = None" using Cons.prems [of a] by simp
  moreover have "first_some xs = None" using Cons.IH Cons.prems by simp
  ultimately show ?case by simp
qed

lemma drop_in_takeWhile:
  assumes "n < length (takeWhile P xs)"
  shows "\<exists>y ys. drop n xs = y # ys \<and> P y"
proof -
  have len: "n < length xs"
    using assms length_takeWhile_le [of P xs] by simp
  have "takeWhile P xs ! n \<in> set (takeWhile P xs)"
    using assms by simp
  then have "P (takeWhile P xs ! n)"
    by (rule set_takeWhileD [THEN conjunct2])
  then have "P (xs ! n)"
    using assms by (simp add: takeWhile_nth)
  moreover have "drop n xs = xs ! n # drop (Suc n) xs"
    using len by (simp add: Cons_nth_drop_Suc)
  ultimately show ?thesis by blast
qed

text \<open>
  Where no shorter run of the class lets the rest of the pattern match, the greedy
  \<^verbatim>\<open>+\<close> is decided by the longest run alone.
\<close>

lemma rmatch_Plus_greedy:
  assumes "\<And>n. n < length (takeWhile (in_cls c) rest) \<Longrightarrow>
             rmatch ts (pre @ take n rest) (drop n rest) mark caps = None"
  shows "rmatch (Plus c # ts) pre rest mark caps =
           (if takeWhile (in_cls c) rest = [] then None
            else rmatch ts (pre @ takeWhile (in_cls c) rest) (dropWhile (in_cls c) rest) mark caps)"
proof (cases "takeWhile (in_cls c) rest = []")
  case True
  then show ?thesis by (simp add: rmatch.simps)
next
  case False
  define m where "m = length (takeWhile (in_cls c) rest)"
  define f where "f = (\<lambda>n. rmatch ts (pre @ take n rest) (drop n rest) mark caps)"
  have m: "0 < m" using False by (simp add: m_def)
  then have up: "[1 ..< Suc m] = [1 ..< m] @ [m]"
    by (simp add: upt_Suc_append)
  have rest_none: "first_some (map f (rev [1 ..< m])) = None"
    by (rule first_some_all_None) (use assms in \<open>auto simp: f_def m_def\<close>)
  have tk: "take m rest = takeWhile (in_cls c) rest"
    unfolding m_def by (rule takeWhile_eq_take [symmetric])
  have dr: "drop m rest = dropWhile (in_cls c) rest"
    unfolding m_def by (rule dropWhile_eq_drop [symmetric])
  have "rmatch (Plus c # ts) pre rest mark caps = first_some (map f (rev [1 ..< Suc m]))"
    by (simp add: f_def m_def rmatch.simps)
  also have "\<dots> = first_some (f m # map f (rev [1 ..< m]))"
    by (simp only: up rev_append rev.simps append.simps list.map)
  also have "\<dots> = f m"
    using rest_none by (cases "f m") simp_all
  finally show ?thesis using False by (simp add: f_def tk dr)
qed

lemma rmatch_Plus_Str:
  assumes d: "\<not> in_cls c d"
  shows "rmatch (Plus c # Str (d # l) # ts) pre rest mark caps =
     (if takeWhile (in_cls c) rest = [] then None
      else rmatch (Str (d # l) # ts) (pre @ takeWhile (in_cls c) rest)
             (dropWhile (in_cls c) rest) mark caps)"
proof (rule rmatch_Plus_greedy)
  fix n assume "n < length (takeWhile (in_cls c) rest)"
  then obtain y ys where "drop n rest = y # ys" "in_cls c y"
    using drop_in_takeWhile by blast
  then show "rmatch (Str (d # l) # ts) (pre @ take n rest) (drop n rest) mark caps = None"
    using d by (auto simp: rmatch.simps)
qed

lemma rmatch_Plus_GClose_Str:
  assumes d: "\<not> in_cls c d"
  shows "rmatch (Plus c # GClose # Str (d # l) # ts) pre rest mark caps =
     (if takeWhile (in_cls c) rest = [] then None
      else rmatch (Str (d # l) # ts) (pre @ takeWhile (in_cls c) rest)
             (dropWhile (in_cls c) rest) mark
             (caps @ [drop mark (pre @ takeWhile (in_cls c) rest)]))"
proof -
  have "rmatch (Plus c # GClose # Str (d # l) # ts) pre rest mark caps =
     (if takeWhile (in_cls c) rest = [] then None
      else rmatch (GClose # Str (d # l) # ts) (pre @ takeWhile (in_cls c) rest)
             (dropWhile (in_cls c) rest) mark caps)"
  proof (rule rmatch_Plus_greedy)
    fix n assume "n < length (takeWhile (in_cls c) rest)"
    then obtain y ys where "drop n rest = y # ys" "in_cls c y"
      using drop_in_takeWhile by blast
    then show "rmatch (GClose # Str (d # l) # ts) (pre @ take n rest) (drop n rest) mark caps = None"
      using d by (auto simp: rmatch.simps)
  qed
  then show ?thesis by (simp add: rmatch.simps)
qed

lemma rmatch_Plus_GClose_Eol:
  "rmatch [Plus Dot, GClose, Eol] pre rest mark caps =
     (if takeWhile (in_cls Dot) rest = [] then None
      else if dropWhile (in_cls Dot) rest = [] \<or> dropWhile (in_cls Dot) rest = [CHR 0x0A]
      then Some (caps @ [drop mark (pre @ takeWhile (in_cls Dot) rest)]) else None)"
proof -
  have "rmatch (Plus Dot # [GClose, Eol]) pre rest mark caps =
     (if takeWhile (in_cls Dot) rest = [] then None
      else rmatch [GClose, Eol] (pre @ takeWhile (in_cls Dot) rest) (dropWhile (in_cls Dot) rest)
             mark caps)"
  proof (rule rmatch_Plus_greedy)
    fix n assume "n < length (takeWhile (in_cls Dot) rest)"
    then obtain y ys where "drop n rest = y # ys" "in_cls Dot y"
      using drop_in_takeWhile by blast
    then show "rmatch [GClose, Eol] (pre @ take n rest) (drop n rest) mark caps = None"
      by (simp add: rmatch.simps)
  qed
  then show ?thesis by (simp add: rmatch.simps del: dropWhile_eq_Nil_conv)
qed

text \<open>The same facts, read as a grammar of the text that is left.\<close>

lemma span_Cons_iff:
  "(takeWhile P xs = b \<and> dropWhile P xs = y # r) \<longleftrightarrow>
     (xs = b @ y # r \<and> (\<forall>x\<in>set b. P x) \<and> \<not> P y)"
proof
  assume a: "takeWhile P xs = b \<and> dropWhile P xs = y # r"
  then have "xs = b @ y # r" by (metis takeWhile_dropWhile_id)
  moreover have "\<forall>x\<in>set b. P x" using a by (auto dest: set_takeWhileD)
  moreover have "\<not> P y" using a by (metis hd_dropWhile list.sel(1) list.distinct(1))
  ultimately show "xs = b @ y # r \<and> (\<forall>x\<in>set b. P x) \<and> \<not> P y" by blast
next
  assume "xs = b @ y # r \<and> (\<forall>x\<in>set b. P x) \<and> \<not> P y"
  then show "takeWhile P xs = b \<and> dropWhile P xs = y # r"
    by (simp add: takeWhile_tail dropWhile_append3)
qed

lemma span_Nil_iff:
  "(takeWhile P xs = b \<and> dropWhile P xs = []) \<longleftrightarrow> (xs = b \<and> (\<forall>x\<in>set b. P x))"
  by (metis dropWhile_eq_Nil_conv takeWhile_eq_all_conv)

lemma rmatch_Str_iff:
  "rmatch (Str l # ts) pre rest mark caps = Some g \<longleftrightarrow>
     (\<exists>r. rest = l @ r \<and> rmatch ts (pre @ l) r mark caps = Some g)"
proof
  assume a: "rmatch (Str l # ts) pre rest mark caps = Some g"
  then have t: "take (length l) rest = l" by (simp add: rmatch.simps split: if_splits)
  then have "rest = l @ drop (length l) rest" by (metis append_take_drop_id)
  moreover have "rmatch ts (pre @ l) (drop (length l) rest) mark caps = Some g"
    using a t by (simp add: rmatch.simps)
  ultimately show "\<exists>r. rest = l @ r \<and> rmatch ts (pre @ l) r mark caps = Some g" by blast
next
  assume "\<exists>r. rest = l @ r \<and> rmatch ts (pre @ l) r mark caps = Some g"
  then show "rmatch (Str l # ts) pre rest mark caps = Some g" by (auto simp: rmatch.simps)
qed

lemma rmatch_One_iff:
  "rmatch (One c # ts) pre rest mark caps = Some g \<longleftrightarrow>
     (\<exists>x r. rest = x # r \<and> in_cls c x \<and> rmatch ts (pre @ [x]) r mark caps = Some g)"
  by (cases rest) (auto simp: rmatch.simps)

lemma rmatch_Plus_Str_iff:
  assumes d: "\<not> in_cls c d"
  shows "rmatch (Plus c # Str [d] # ts) pre rest mark caps = Some g \<longleftrightarrow>
     (\<exists>b r. rest = b @ d # r \<and> b \<noteq> [] \<and> (\<forall>x\<in>set b. in_cls c x) \<and>
        rmatch ts (pre @ b @ [d]) r mark caps = Some g)"
  (is "?L \<longleftrightarrow> ?R")
proof
  assume a: ?L
  define b where "b = takeWhile (in_cls c) rest"
  have ne: "b \<noteq> []"
    using a by (auto simp: b_def rmatch_Plus_Str [OF d] split: if_splits)
  have "rmatch (Str [d] # ts) (pre @ b) (dropWhile (in_cls c) rest) mark caps = Some g"
    using a ne by (simp add: b_def rmatch_Plus_Str [OF d])
  then obtain r where r: "dropWhile (in_cls c) rest = [d] @ r"
    "rmatch ts ((pre @ b) @ [d]) r mark caps = Some g"
    unfolding rmatch_Str_iff by blast
  have "rest = b @ d # r"
    using r(1) by (metis b_def takeWhile_dropWhile_id append_Cons append_Nil)
  moreover have "\<forall>x\<in>set b. in_cls c x" by (auto simp: b_def dest: set_takeWhileD)
  ultimately show ?R using ne r(2) by auto
next
  assume ?R
  then obtain b r where br: "rest = b @ d # r" "b \<noteq> []" "\<forall>x\<in>set b. in_cls c x"
    "rmatch ts (pre @ b @ [d]) r mark caps = Some g" by blast
  have "takeWhile (in_cls c) rest = b \<and> dropWhile (in_cls c) rest = d # r"
    unfolding span_Cons_iff using br d by simp
  then have sp: "takeWhile (in_cls c) rest = b" "dropWhile (in_cls c) rest = d # r"
    by simp_all
  show ?L
    unfolding rmatch_Plus_Str [OF d] sp using br(2,4) by (simp add: rmatch.simps)
qed

lemma rmatch_Plus_GClose_Str_iff:
  assumes d: "\<not> in_cls c d"
  shows "rmatch (Plus c # GClose # Str [d] # ts) pre rest mark caps = Some g \<longleftrightarrow>
     (\<exists>b r. rest = b @ d # r \<and> b \<noteq> [] \<and> (\<forall>x\<in>set b. in_cls c x) \<and>
        rmatch ts (pre @ b @ [d]) r mark (caps @ [drop mark (pre @ b)]) = Some g)"
  (is "?L \<longleftrightarrow> ?R")
proof
  assume a: ?L
  define b where "b = takeWhile (in_cls c) rest"
  have ne: "b \<noteq> []"
    using a by (auto simp: b_def rmatch_Plus_GClose_Str [OF d] split: if_splits)
  have "rmatch (Str [d] # ts) (pre @ b) (dropWhile (in_cls c) rest) mark
          (caps @ [drop mark (pre @ b)]) = Some g"
    using a ne by (simp add: b_def rmatch_Plus_GClose_Str [OF d])
  then obtain r where r: "dropWhile (in_cls c) rest = [d] @ r"
    "rmatch ts ((pre @ b) @ [d]) r mark (caps @ [drop mark (pre @ b)]) = Some g"
    unfolding rmatch_Str_iff by blast
  have "rest = b @ d # r"
    using r(1) by (metis b_def takeWhile_dropWhile_id append_Cons append_Nil)
  moreover have "\<forall>x\<in>set b. in_cls c x" by (auto simp: b_def dest: set_takeWhileD)
  ultimately show ?R using ne r(2) by auto
next
  assume ?R
  then obtain b r where br: "rest = b @ d # r" "b \<noteq> []" "\<forall>x\<in>set b. in_cls c x"
    "rmatch ts (pre @ b @ [d]) r mark (caps @ [drop mark (pre @ b)]) = Some g" by blast
  have "takeWhile (in_cls c) rest = b \<and> dropWhile (in_cls c) rest = d # r"
    unfolding span_Cons_iff using br d by simp
  then have sp: "takeWhile (in_cls c) rest = b" "dropWhile (in_cls c) rest = d # r"
    by simp_all
  show ?L
    unfolding rmatch_Plus_GClose_Str [OF d] sp using br(2,4) by (simp add: rmatch.simps)
qed

lemma rmatch_key_iff:
  "rmatch [Plus Dot, GClose, Eol] pre rest mark caps = Some g \<longleftrightarrow>
     (\<exists>k e. rest = k @ e \<and> k \<noteq> [] \<and> CHR 0x0A \<notin> set k \<and> (e = [] \<or> e = [CHR 0x0A]) \<and>
        g = caps @ [drop mark (pre @ k)])"
  (is "?L \<longleftrightarrow> ?R")
proof
  assume a: ?L
  define k where "k = takeWhile (in_cls Dot) rest"
  define e where "e = dropWhile (in_cls Dot) rest"
  have "k \<noteq> []" "e = [] \<or> e = [CHR 0x0A]" "g = caps @ [drop mark (pre @ k)]"
    using a unfolding rmatch_Plus_GClose_Eol k_def e_def by (simp_all split: if_splits)
  moreover have "rest = k @ e" by (simp add: k_def e_def)
  moreover have "CHR 0x0A \<notin> set k" by (auto simp: k_def dest: set_takeWhileD)
  ultimately show ?R by blast
next
  assume ?R
  then obtain k e where ke: "rest = k @ e" "k \<noteq> []" "CHR 0x0A \<notin> set k"
    "e = [] \<or> e = [CHR 0x0A]" "g = caps @ [drop mark (pre @ k)]" by blast
  have all: "\<forall>x\<in>set k. in_cls Dot x" using ke(3) by auto
  have "takeWhile (in_cls Dot) rest = k \<and> dropWhile (in_cls Dot) rest = e"
  proof (cases "e = []")
    case True
    then show ?thesis using ke(1) all span_Nil_iff [of "in_cls Dot" rest k] by simp
  next
    case False
    then have "e = [CHR 0x0A]" using ke(4) by simp
    then show ?thesis
      using ke(1) all span_Cons_iff [of "in_cls Dot" rest k "CHR 0x0A" "[]"] by simp
  qed
  then have sp: "takeWhile (in_cls Dot) rest = k" "dropWhile (in_cls Dot) rest = e"
    by simp_all
  show ?L
    unfolding rmatch_Plus_GClose_Eol sp using ke(2,4,5) by auto
qed

lemmas rmatch_iffs = rmatch.simps(2,7) rmatch_Plus_GClose_Str_iff rmatch_Plus_Str_iff
  rmatch_key_iff rmatch_Str_iff rmatch_One_iff

lemma drop5: "drop (5 + length h) (a1 # a2 # a3 # a4 # h @ a5 # k) = k"
  by (simp add: numeral_eq_Suc)

lemma s3_uri_re_iff:
  "re_match s3_uri_re s = Some g \<longleftrightarrow>
     (\<exists>c b k e. s = c # ''3://'' @ b @ ''/'' @ k @ e \<and> (c = CHR ''s'' \<or> c = CHR ''S'') \<and>
        b \<noteq> [] \<and> (\<forall>x\<in>set b. x \<noteq> CHR ''.'' \<and> x \<noteq> CHR ''/'') \<and>
        k \<noteq> [] \<and> CHR 0x0A \<notin> set k \<and> (e = [] \<or> e = [CHR 0x0A]) \<and> g = [b, k])"
  (is "?L \<longleftrightarrow> ?R")
proof
  assume ?L
  then obtain c r0 r1 b r2 k e where
    eqs: "s = c # r0" "r0 = ''3://'' @ r1" "r1 = b @ ''/'' @ r2" "r2 = k @ e"
    and props: "c = CHR ''s'' \<or> c = CHR ''S''"
      "b \<noteq> []" "\<forall>x\<in>set b. x \<noteq> CHR ''.'' \<and> x \<noteq> CHR ''/''"
      "k \<noteq> []" "CHR 0x0A \<notin> set k" "e = [] \<or> e = [CHR 0x0A]" "g = [b, k]"
    unfolding re_match_def s3_uri_re_def
    by (simp add: rmatch_iffs) (elim exE conjE, simp)
  have "s = c # ''3://'' @ b @ ''/'' @ k @ e"
    using eqs by simp
  then show ?R using props by blast
next
  assume ?R
  then obtain c b k e where
    h: "s = c # ''3://'' @ b @ ''/'' @ k @ e" "c = CHR ''s'' \<or> c = CHR ''S''"
    "b \<noteq> []" "\<forall>x\<in>set b. x \<noteq> CHR ''.'' \<and> x \<noteq> CHR ''/''"
    "k \<noteq> []" "CHR 0x0A \<notin> set k" "e = [] \<or> e = [CHR 0x0A]" "g = [b, k]"
    by blast
  have key: "rmatch [Plus Dot, GClose, Eol] pre (k @ e) (length pre) [b] = Some [b, k]" for pre
    unfolding rmatch_key_iff
    by (rule exI [of _ k], rule exI [of _ e]) (use h(5-7) in simp)
  have bucket: "rmatch (Plus (NoneOf ''./'') # GClose # Str ''/'' # [GOpen, Plus Dot, GClose, Eol])
      pre (b @ CHR ''/'' # k @ e) (length pre) [] = Some [b, k]" for pre
    by (subst rmatch_Plus_GClose_Str_iff, simp, rule exI [of _ b], rule exI [of _ "k @ e"])
       (use h(3,4) key [of "pre @ b @ ''/''"] in \<open>simp add: rmatch.simps(7)\<close>)
  show ?L
    unfolding re_match_def s3_uri_re_def h(1) h(8)
    using h(2) bucket [of "c # ''3://''"] by (auto simp: rmatch.simps(2,4,5,7))
qed

lemma object_url_re_iff:
  "re_match object_url_re s = Some g \<longleftrightarrow>
     (\<exists>b c h k e. s = ''https://'' @ b @ ''.'' @ c # ''3.'' @ h @ ''/'' @ k @ e \<and>
        (c = CHR ''s'' \<or> c = CHR ''S'') \<and>
        b \<noteq> [] \<and> (\<forall>x\<in>set b. x \<noteq> CHR ''.'' \<and> x \<noteq> CHR ''/'') \<and>
        h \<noteq> [] \<and> (\<forall>x\<in>set h. x \<noteq> CHR ''/'') \<and>
        k \<noteq> [] \<and> CHR 0x0A \<notin> set k \<and> (e = [] \<or> e = [CHR 0x0A]) \<and> g = [b, k])"
  (is "?L \<longleftrightarrow> ?R")
proof
  assume ?L
  then obtain r0 b r1 c r2 r3 r4 h r5 k e where
    eqs: "s = ''https://'' @ r0" "r0 = b @ ''.'' @ r1" "r1 = c # r2" "r2 = ''3'' @ r3"
      "r3 = ''.'' @ r4" "r4 = h @ ''/'' @ r5" "r5 = k @ e"
    and props: "c = CHR ''s'' \<or> c = CHR ''S''" "b \<noteq> []"
      "\<forall>x\<in>set b. x \<noteq> CHR ''.'' \<and> x \<noteq> CHR ''/''"
      "h \<noteq> []" "\<forall>x\<in>set h. x \<noteq> CHR ''/''"
      "k \<noteq> []" "CHR 0x0A \<notin> set k" "e = [] \<or> e = [CHR 0x0A]" "g = [b, k]"
    unfolding re_match_def object_url_re_def
    by (simp add: rmatch_iffs drop5) (elim exE conjE, simp)
  have "s = ''https://'' @ b @ ''.'' @ c # ''3.'' @ h @ ''/'' @ k @ e"
    using eqs by simp
  then show ?R using props by blast
next
  assume ?R
  then obtain b c h k e where
    h: "s = ''https://'' @ b @ ''.'' @ c # ''3.'' @ h @ ''/'' @ k @ e"
    "c = CHR ''s'' \<or> c = CHR ''S''"
    "b \<noteq> []" "\<forall>x\<in>set b. x \<noteq> CHR ''.'' \<and> x \<noteq> CHR ''/''"
    "h \<noteq> []" "\<forall>x\<in>set h. x \<noteq> CHR ''/''"
    "k \<noteq> []" "CHR 0x0A \<notin> set k" "e = [] \<or> e = [CHR 0x0A]" "g = [b, k]"
    by blast
  have key: "rmatch [Plus Dot, GClose, Eol] pre (k @ e) (length pre) [b] = Some [b, k]" for pre
    unfolding rmatch_key_iff
    by (rule exI [of _ k], rule exI [of _ e]) (use h(7-9) in simp)
  have host: "rmatch (Plus (NoneOf ''/'') # Str ''/'' # [GOpen, Plus Dot, GClose, Eol])
      pre (h @ CHR ''/'' # k @ e) mark [b] = Some [b, k]" for pre mark
    by (subst rmatch_Plus_Str_iff, simp, rule exI [of _ h], rule exI [of _ "k @ e"])
       (use h(5,6) key [of "pre @ h @ ''/''"] in \<open>simp add: rmatch.simps(7)\<close>)
  have bucket: "rmatch (Plus (NoneOf ''./'') # GClose # Str ''.'' #
        [One (OneOf ''sS''), Str ''3'', Str ''.'', Plus (NoneOf ''/''), Str ''/'',
         GOpen, Plus Dot, GClose, Eol])
      pre (b @ CHR ''.'' # c # ''3.'' @ h @ CHR ''/'' # k @ e) (length pre) [] = Some [b, k]" for pre
    by (subst rmatch_Plus_GClose_Str_iff, simp, rule exI [of _ b],
        rule exI [of _ "c # ''3.'' @ h @ CHR ''/'' # k @ e"])
       (use h(2,3,4) host in \<open>auto simp: rmatch.simps(4,5)\<close>)
  show ?L
    unfolding re_match_def object_url_re_def h(1) h(10)
    using bucket [of "''https://''"] by (simp add: rmatch.simps(2,4,7))
qed

section \<open>Properties of \<^verbatim>\<open>parse_s3_uri\<close>\<close>

lemma object_url_groups:
  assumes "re_match object_url_re s = Some g"
  shows "\<exists>b k. g = [b, k] \<and> b \<noteq> [] \<and> CHR ''.'' \<notin> set b \<and> CHR ''/'' \<notin> set b \<and> k \<noteq> []"
  using assms unfolding object_url_re_iff by auto

lemma s3_uri_groups:
  assumes "re_match s3_uri_re s = Some g"
  shows "\<exists>b k. g = [b, k] \<and> b \<noteq> [] \<and> CHR ''.'' \<notin> set b \<and> CHR ''/'' \<notin> set b \<and> k \<noteq> []"
  using assms unfolding s3_uri_re_iff by auto

lemma parse_s3_uri_eq:
  "parse_s3_uri s =
     (case re_match object_url_re s of
        Some g \<Rightarrow> Inr (hd g, hd (tl g))
      | None \<Rightarrow>
          (case re_match s3_uri_re s of
             Some g \<Rightarrow> Inr (hd g, hd (tl g))
           | None \<Rightarrow> Inl (ValueError (''Not a valid S3 uri: '' @ s))))"
proof (cases "re_match object_url_re s")
  case (Some g)
  then obtain b k where "g = [b, k]" using object_url_groups by blast
  then show ?thesis using Some by (simp add: parse_s3_uri_def unpack2_def)
next
  case None
  show ?thesis
  proof (cases "re_match s3_uri_re s")
    case (Some g)
    then obtain b k where "g = [b, k]" using s3_uri_groups by blast
    then show ?thesis using Some None by (simp add: parse_s3_uri_def unpack2_def)
  next
    case n: None
    then show ?thesis using None by (simp add: parse_s3_uri_def)
  qed
qed

lemma parse_s3_uri_Inr_iff:
  "parse_s3_uri s = Inr (b, k) \<longleftrightarrow>
     re_match object_url_re s = Some [b, k] \<or>
     (re_match object_url_re s = None \<and> re_match s3_uri_re s = Some [b, k])"
proof (cases "re_match object_url_re s")
  case (Some g)
  then obtain b' k' where "g = [b', k']" using object_url_groups by blast
  then show ?thesis using Some by (auto simp: parse_s3_uri_eq)
next
  case None
  show ?thesis
  proof (cases "re_match s3_uri_re s")
    case (Some g)
    then obtain b' k' where "g = [b', k']" using s3_uri_groups by blast
    then show ?thesis using Some None by (auto simp: parse_s3_uri_eq)
  next
    case n: None
    then show ?thesis using None by (simp add: parse_s3_uri_eq)
  qed
qed

lemma parse_s3_uri_Inl_iff:
  "parse_s3_uri s = Inl e \<longleftrightarrow>
     e = ValueError (''Not a valid S3 uri: '' @ s) \<and>
     re_match object_url_re s = None \<and> re_match s3_uri_re s = None"
  by (auto simp: parse_s3_uri_eq split: option.splits)

lemma virtual_hosted_form_of_match:
  assumes "re_match object_url_re s = Some g"
  shows "virtual_hosted_form s"
proof -
  obtain b c h k e where
    h: "s = ''https://'' @ b @ ''.'' @ c # ''3.'' @ h @ ''/'' @ k @ e"
    "c = CHR ''s'' \<or> c = CHR ''S''"
    "b \<noteq> []" "\<forall>x\<in>set b. x \<noteq> CHR ''.'' \<and> x \<noteq> CHR ''/''"
    "h \<noteq> []" "\<forall>x\<in>set h. x \<noteq> CHR ''/''" "k \<noteq> []"
    using assms unfolding object_url_re_iff by blast
  show ?thesis
    unfolding virtual_hosted_form_def
    by (rule exI [of _ b], rule exI [of _ c], rule exI [of _ h], rule exI [of _ "k @ e"])
       (use h in auto)
qed

lemma match_of_virtual_hosted_form:
  assumes "virtual_hosted_form s" "CHR 0x0A \<notin> set s"
  shows "\<exists>g. re_match object_url_re s = Some g"
proof -
  obtain b c h k where
    h: "s = ''https://'' @ b @ ''.'' @ c # ''3.'' @ h @ ''/'' @ k"
    "c = CHR ''s'' \<or> c = CHR ''S''"
    "b \<noteq> []" "CHR ''.'' \<notin> set b" "CHR ''/'' \<notin> set b"
    "h \<noteq> []" "CHR ''/'' \<notin> set h" "k \<noteq> []"
    using assms(1) unfolding virtual_hosted_form_def by blast
  have "CHR 0x0A \<notin> set k" using assms(2) h(1) by simp
  then have "re_match object_url_re s = Some [b, k]"
    unfolding object_url_re_iff
    by (intro exI [of _ b] exI [of _ c] exI [of _ h] exI [of _ k] exI [of _ "[]"])
       (use h in auto)
  then show ?thesis by blast
qed

lemma path_style_form_of_match:
  assumes "re_match s3_uri_re s = Some g"
  shows "path_style_form s"
proof -
  obtain c b k e where
    h: "s = c # ''3://'' @ b @ ''/'' @ k @ e" "c = CHR ''s'' \<or> c = CHR ''S''"
    "b \<noteq> []" "\<forall>x\<in>set b. x \<noteq> CHR ''.'' \<and> x \<noteq> CHR ''/''" "k \<noteq> []"
    using assms unfolding s3_uri_re_iff by blast
  show ?thesis
    unfolding path_style_form_def
    by (rule exI [of _ c], rule exI [of _ b], rule exI [of _ "k @ e"]) (use h in auto)
qed

lemma match_of_path_style_form:
  assumes "path_style_form s" "CHR 0x0A \<notin> set s"
  shows "\<exists>g. re_match s3_uri_re s = Some g"
proof -
  obtain c b k where
    h: "s = c # ''3://'' @ b @ ''/'' @ k" "c = CHR ''s'' \<or> c = CHR ''S''"
    "b \<noteq> []" "CHR ''.'' \<notin> set b" "CHR ''/'' \<notin> set b" "k \<noteq> []"
    using assms(1) unfolding path_style_form_def by blast
  have "CHR 0x0A \<notin> set k" using assms(2) h(1) by simp
  then have "re_match s3_uri_re s = Some [b, k]"
    unfolding s3_uri_re_iff
    by (intro exI [of _ b] exI [of _ c] exI [of _ k] exI [of _ "[]"]) (use h in auto)
  then show ?thesis by blast
qed

lemmas parse_eval = parse_s3_uri_def re_match_def object_url_re_def s3_uri_re_def unpack2_def
  rmatch.simps construct_s3_uri_def

lemma join_Cons: "join sep (x # xs) = x @ concat (map (\<lambda>y. sep @ y) xs)"
  by (induction xs arbitrary: x) simp_all

lemma not_object_url:
  assumes "take 1 s \<noteq> ''h''"
  shows "re_match object_url_re s = None"
proof (cases "re_match object_url_re s")
  case None
  then show ?thesis .
next
  case (Some g)
  then obtain r where "s = ''https://'' @ r" unfolding object_url_re_iff by auto
  then show ?thesis using assms by simp
qed

lemma parse_s3_uri_Inr_props:
  assumes "parse_s3_uri s = Inr (bucket, key)"
  shows "bucket \<noteq> [] \<and> CHR ''.'' \<notin> set bucket \<and> CHR ''/'' \<notin> set bucket \<and> key \<noteq> []"
proof -
  consider "re_match object_url_re s = Some [bucket, key]"
    | "re_match s3_uri_re s = Some [bucket, key]"
    using assms unfolding parse_s3_uri_Inr_iff by blast
  then show ?thesis
  proof cases
    case 1
    then show ?thesis using object_url_groups by fastforce
  next
    case 2
    then show ?thesis using s3_uri_groups by fastforce
  qed
qed

section \<open>Claims about the URI functions\<close>

text \<open>
  C1 (as amended). For every non-empty bucket that contains neither \<^verbatim>\<open>/\<close> nor \<^verbatim>\<open>.\<close> and
  every pair of non-empty segments without a line feed, \<^verbatim>\<open>construct_s3_uri\<close> succeeds
  and \<^verbatim>\<open>parse_s3_uri\<close> of its result returns the bucket and the two segments joined
  by \<^verbatim>\<open>/\<close>.
\<close>

theorem construct_parse_roundtrip:
  assumes "bucket \<noteq> []" "CHR ''/'' \<notin> set bucket" "CHR ''.'' \<notin> set bucket"
    and "seg1 \<noteq> []" "seg2 \<noteq> []" "CHR 0x0A \<notin> set seg1" "CHR 0x0A \<notin> set seg2"
  shows "\<exists>uri. construct_s3_uri bucket [seg1, seg2] = Inr uri \<and>
           parse_s3_uri uri = Inr (bucket, seg1 @ ''/'' @ seg2)"
proof -
  define uri where "uri = ''s3://'' @ bucket @ ''/'' @ seg1 @ ''/'' @ seg2"
  have c: "construct_s3_uri bucket [seg1, seg2] = Inr uri"
    by (simp add: construct_s3_uri_def uri_def)
  have n: "re_match object_url_re uri = None"
    by (rule not_object_url) (simp add: uri_def)
  have "re_match s3_uri_re uri = Some [bucket, seg1 @ ''/'' @ seg2]"
    unfolding s3_uri_re_iff
    by (intro exI [of _ "CHR ''s''"] exI [of _ bucket] exI [of _ "seg1 @ ''/'' @ seg2"]
          exI [of _ "[]"]) (use assms in \<open>auto simp: uri_def\<close>)
  then have "parse_s3_uri uri = Inr (bucket, seg1 @ ''/'' @ seg2)"
    using n by (simp add: parse_s3_uri_Inr_iff)
  then show ?thesis using c by blast
qed

text \<open>The round trip at the bucket \<^verbatim>\<open>my-bucket\<close> and the segments \<^verbatim>\<open>my\<close>, \<^verbatim>\<open>key\<close>.\<close>

theorem construct_parse_roundtrip_witness:
  "\<exists>uri. construct_s3_uri ''my-bucket'' [''my'', ''key''] = Inr uri \<and>
     parse_s3_uri uri = Inr (''my-bucket'', ''my/key'')"
  using construct_parse_roundtrip [of "''my-bucket''" "''my''" "''key''"] by simp

text \<open>
  The round trip as first stated, for every slash-free bucket, fails: a bucket with a
  dot gives a URI that \<^verbatim>\<open>parse_s3_uri\<close> rejects, and a segment that ends in a line feed
  comes back without it.
\<close>

theorem construct_parse_roundtrip_counterexample:
  "construct_s3_uri ''a.b'' [''x'', ''y''] = Inr ''s3://a.b/x/y'' \<and>
   parse_s3_uri ''s3://a.b/x/y'' = Inl (ValueError ''Not a valid S3 uri: s3://a.b/x/y'') \<and>
   construct_s3_uri ''b'' [''x'', ''y'' @ [CHR 0x0A]] = Inr (''s3://b/x/y'' @ [CHR 0x0A]) \<and>
   parse_s3_uri (''s3://b/x/y'' @ [CHR 0x0A]) = Inr (''b'', ''x/y'')"
  by (simp add: parse_eval)

text \<open>
  C3. For every string, \<^verbatim>\<open>is_s3_uri\<close> returns normally, and it returns true exactly when
  \<^verbatim>\<open>parse_s3_uri\<close> returns a bucket and a key.
\<close>

theorem is_s3_uri_iff_parse_succeeds:
  "is_s3_uri s = Inr (\<exists>bucket key. parse_s3_uri s = Inr (bucket, key))"
proof (cases "parse_s3_uri s")
  case (Inl e)
  then have "e = ValueError (''Not a valid S3 uri: '' @ s)"
    by (simp add: parse_s3_uri_Inl_iff)
  then show ?thesis using Inl by (simp add: is_s3_uri_def)
next
  case (Inr r)
  then show ?thesis by (cases r) (simp add: is_s3_uri_def)
qed

text \<open>\<^verbatim>\<open>is_s3_uri\<close> on a URI and on a string that is none.\<close>

theorem is_s3_uri_iff_parse_succeeds_witness:
  "is_s3_uri ''s3://my-bucket/my/key'' = Inr True \<and> is_s3_uri ''not-a-uri'' = Inr False"
proof -
  have a: "parse_s3_uri ''s3://my-bucket/my/key'' = Inr (''my-bucket'', ''my/key'')"
    by (simp add: parse_eval)
  have b: "parse_s3_uri ''not-a-uri'' = Inl (ValueError ''Not a valid S3 uri: not-a-uri'')"
    by (simp add: parse_eval)
  show ?thesis
    using is_s3_uri_iff_parse_succeeds [of "''s3://my-bucket/my/key''"]
      is_s3_uri_iff_parse_succeeds [of "''not-a-uri''"]
    by (simp add: a b)
qed

text \<open>
  C4. \<^verbatim>\<open>parse_s3_uri\<close> returns the same bucket and key for the S3 URI and for the object
  URL of one object, and every bucket it returns is non-empty and free of \<^verbatim>\<open>/\<close>, every
  key non-empty.
\<close>

theorem parse_s3_uri_both_forms:
  "parse_s3_uri ''s3://my-bucket/my/key'' = Inr (''my-bucket'', ''my/key'') \<and>
   parse_s3_uri ''https://my-bucket.s3.us-west-2.amazonaws.com/my/key'' =
     Inr (''my-bucket'', ''my/key'') \<and>
   (parse_s3_uri s = Inr (bucket, key) \<longrightarrow>
      bucket \<noteq> [] \<and> CHR ''/'' \<notin> set bucket \<and> key \<noteq> [])"
proof (intro conjI impI)
  show "parse_s3_uri ''s3://my-bucket/my/key'' = Inr (''my-bucket'', ''my/key'')"
    by (simp add: parse_eval)
  show "parse_s3_uri ''https://my-bucket.s3.us-west-2.amazonaws.com/my/key'' =
      Inr (''my-bucket'', ''my/key'')"
    by (simp add: parse_eval)
next
  assume "parse_s3_uri s = Inr (bucket, key)"
  then consider "re_match object_url_re s = Some [bucket, key]"
    | "re_match s3_uri_re s = Some [bucket, key]"
    unfolding parse_s3_uri_Inr_iff by blast
  then have "bucket \<noteq> [] \<and> CHR ''/'' \<notin> set bucket \<and> key \<noteq> []"
  proof cases
    case 1
    then show ?thesis using object_url_groups by fastforce
  next
    case 2
    then show ?thesis using s3_uri_groups by fastforce
  qed
  then show "bucket \<noteq> []" "CHR ''/'' \<notin> set bucket" "key \<noteq> []" by simp_all
qed

text \<open>The invariant at a URI with an upper-case scheme.\<close>

theorem parse_s3_uri_both_forms_witness:
  "parse_s3_uri ''S3://B/k/'' = Inr (''B'', ''k/'') \<and>
   ''B'' \<noteq> [] \<and> CHR ''/'' \<notin> set ''B'' \<and> ''k/'' \<noteq> []"
proof -
  have a: "parse_s3_uri ''S3://B/k/'' = Inr (''B'', ''k/'')"
    by (simp add: parse_eval)
  show ?thesis
    using parse_s3_uri_both_forms [of "''S3://B/k/''" "''B''" "''k/''"] a by simp
qed

lemma first_sep_unique:
  assumes "a \<notin> set xs" "a \<notin> set xs'" "xs @ a # ys = xs' @ a # ys'"
  shows "xs = xs'"
proof -
  have "takeWhile (\<lambda>x. x \<noteq> a) (xs @ a # ys) = xs"
    using assms(1) by (auto simp: takeWhile_tail)
  moreover have "takeWhile (\<lambda>x. x \<noteq> a) (xs' @ a # ys') = xs'"
    using assms(2) by (auto simp: takeWhile_tail)
  ultimately show ?thesis using assms(3) by simp
qed

lemma dotted_path_style_fails:
  assumes c: "c = CHR ''s'' \<or> c = CHR ''S''"
    and b: "CHR ''.'' \<in> set b" "CHR ''/'' \<notin> set b"
  shows "parse_s3_uri (c # ''3://'' @ b @ ''/'' @ k) =
           Inl (ValueError (''Not a valid S3 uri: '' @ c # ''3://'' @ b @ ''/'' @ k))"
proof -
  let ?s = "c # ''3://'' @ b @ ''/'' @ k"
  have n1: "re_match object_url_re ?s = None"
    by (rule not_object_url) (use c in auto)
  have n2: "re_match s3_uri_re ?s = None"
  proof (cases "re_match s3_uri_re ?s")
    case None
    then show ?thesis .
  next
    case (Some g)
    have "\<exists>c' b' k' e. ?s = c' # ''3://'' @ b' @ ''/'' @ k' @ e \<and>
        (\<forall>x\<in>set b'. x \<noteq> CHR ''.'' \<and> x \<noteq> CHR ''/'')"
      using Some unfolding s3_uri_re_iff by (elim exE conjE) (intro exI conjI, assumption+)
    then obtain c' b' k' e where
      h: "?s = c' # ''3://'' @ b' @ ''/'' @ k' @ e"
      "\<forall>x\<in>set b'. x \<noteq> CHR ''.'' \<and> x \<noteq> CHR ''/''"
      by (elim exE conjE)
    have eq: "b @ CHR ''/'' # k = b' @ CHR ''/'' # (k' @ e)" using h(1) by simp
    have nb: "CHR ''/'' \<notin> set b'" using h(2) by auto
    have "b = b'" by (rule first_sep_unique [OF b(2) nb eq])
    then show ?thesis using b(1) h(2) by auto
  qed
  show ?thesis unfolding parse_s3_uri_Inl_iff using n1 n2 by simp
qed

text \<open>
  C5 (as amended). \<^verbatim>\<open>parse_s3_uri\<close> raises the \<^verbatim>\<open>ValueError\<close> of the invalid URI whenever
  the string has neither the virtual-hosted form nor the path form, and, for a string
  without a line feed, only then. It fails on \<^verbatim>\<open>not-a-uri\<close>; no bucket it returns
  contains \<^verbatim>\<open>.\<close> or \<^verbatim>\<open>/\<close>; and a path-form URI whose text between \<^verbatim>\<open>://\<close> and the
  first \<^verbatim>\<open>/\<close> contains a dot fails.
\<close>

theorem parse_s3_uri_fails_iff_no_form:
  "(\<not> virtual_hosted_form s \<and> \<not> path_style_form s \<longrightarrow>
      parse_s3_uri s = Inl (ValueError (''Not a valid S3 uri: '' @ s))) \<and>
   (CHR 0x0A \<notin> set s \<longrightarrow>
      (parse_s3_uri s = Inl (ValueError (''Not a valid S3 uri: '' @ s))) =
      (\<not> virtual_hosted_form s \<and> \<not> path_style_form s)) \<and>
   parse_s3_uri ''not-a-uri'' = Inl (ValueError ''Not a valid S3 uri: not-a-uri'') \<and>
   (parse_s3_uri s = Inr (bucket, key) \<longrightarrow>
      CHR ''.'' \<notin> set bucket \<and> CHR ''/'' \<notin> set bucket) \<and>
   ((c = CHR ''s'' \<or> c = CHR ''S'') \<and> CHR ''.'' \<in> set b \<and> CHR ''/'' \<notin> set b \<longrightarrow>
      parse_s3_uri (c # ''3://'' @ b @ ''/'' @ k) =
        Inl (ValueError (''Not a valid S3 uri: '' @ c # ''3://'' @ b @ ''/'' @ k)))"
proof -
  have fails_iff: "parse_s3_uri s = Inl (ValueError (''Not a valid S3 uri: '' @ s)) \<longleftrightarrow>
      re_match object_url_re s = None \<and> re_match s3_uri_re s = None"
    unfolding parse_s3_uri_Inl_iff by blast
  have neither: "parse_s3_uri s = Inl (ValueError (''Not a valid S3 uri: '' @ s))"
    if "\<not> virtual_hosted_form s \<and> \<not> path_style_form s"
  proof -
    have "re_match object_url_re s = None"
      using that virtual_hosted_form_of_match by (cases "re_match object_url_re s") auto
    moreover have "re_match s3_uri_re s = None"
      using that path_style_form_of_match by (cases "re_match s3_uri_re s") auto
    ultimately show ?thesis using fails_iff by blast
  qed
  have only_then: "\<not> virtual_hosted_form s \<and> \<not> path_style_form s"
    if lf: "CHR 0x0A \<notin> set s"
      and f: "parse_s3_uri s = Inl (ValueError (''Not a valid S3 uri: '' @ s))"
  proof -
    have "re_match object_url_re s = None" "re_match s3_uri_re s = None"
      using f fails_iff by blast+
    then show ?thesis
      using match_of_virtual_hosted_form [OF _ lf] match_of_path_style_form [OF _ lf] by auto
  qed
  have bucket: "CHR ''.'' \<notin> set bucket \<and> CHR ''/'' \<notin> set bucket"
    if p: "parse_s3_uri s = Inr (bucket, key)"
  proof -
    consider "re_match object_url_re s = Some [bucket, key]"
      | "re_match s3_uri_re s = Some [bucket, key]"
      using p unfolding parse_s3_uri_Inr_iff by blast
    then show ?thesis
    proof cases
      case 1
      then show ?thesis using object_url_groups by fastforce
    next
      case 2
      then show ?thesis using s3_uri_groups by fastforce
    qed
  qed
  have nau: "parse_s3_uri ''not-a-uri'' = Inl (ValueError ''Not a valid S3 uri: not-a-uri'')"
    by (simp add: parse_eval)
  have dotted: "parse_s3_uri (c # ''3://'' @ b @ ''/'' @ k) =
        Inl (ValueError (''Not a valid S3 uri: '' @ c # ''3://'' @ b @ ''/'' @ k))"
    if "(c = CHR ''s'' \<or> c = CHR ''S'') \<and> CHR ''.'' \<in> set b \<and> CHR ''/'' \<notin> set b"
    using that by (intro dotted_path_style_fails) simp_all
  show ?thesis
  proof (intro conjI impI)
    show "parse_s3_uri ''not-a-uri'' = Inl (ValueError ''Not a valid S3 uri: not-a-uri'')"
      by (rule nau)
  next
    assume "CHR 0x0A \<notin> set s"
    then show "(parse_s3_uri s = Inl (ValueError (''Not a valid S3 uri: '' @ s))) =
      (\<not> virtual_hosted_form s \<and> \<not> path_style_form s)"
      using neither only_then by blast
  qed (use neither bucket dotted in blast)+
qed

text \<open>A dotted bucket in the path form, and an object URL with an upper-case \<^verbatim>\<open>S3\<close>.\<close>

theorem parse_s3_uri_fails_iff_no_form_witness:
  "\<not> virtual_hosted_form ''s3://my.bucket/key'' \<and> \<not> path_style_form ''s3://my.bucket/key'' \<and>
   CHR 0x0A \<notin> set ''s3://my.bucket/key'' \<and>
   parse_s3_uri ''s3://my.bucket/key'' = Inl (ValueError ''Not a valid S3 uri: s3://my.bucket/key'') \<and>
   parse_s3_uri ''https://b.S3.host/k'' = Inr (''b'', ''k'') \<and>
   CHR ''.'' \<notin> set ''b'' \<and> CHR ''/'' \<notin> set ''b''"
proof -
  have a: "parse_s3_uri ''s3://my.bucket/key'' =
      Inl (ValueError ''Not a valid S3 uri: s3://my.bucket/key'')"
    by (simp add: parse_eval)
  have b: "parse_s3_uri ''https://b.S3.host/k'' = Inr (''b'', ''k'')"
    by (simp add: parse_eval)
  show ?thesis
    using parse_s3_uri_fails_iff_no_form
            [of "''s3://my.bucket/key''" "''b''" "''k''" "CHR ''s''" "''my.bucket''" "''key''"]
      parse_s3_uri_fails_iff_no_form
            [of "''https://b.S3.host/k''" "''b''" "''k''" "CHR ''s''" "''my.bucket''" "''key''"]
      a b
    by simp
qed

text \<open>
  Without the restriction to strings free of line feeds the equivalence fails: a key
  with a line feed inside has the path form, and \<^verbatim>\<open>parse_s3_uri\<close> rejects it.
\<close>

theorem parse_s3_uri_fails_iff_no_form_counterexample:
  "path_style_form (''s3://b/a'' @ [CHR 0x0A] @ ''b'') \<and>
   parse_s3_uri (''s3://b/a'' @ [CHR 0x0A] @ ''b'') =
     Inl (ValueError (''Not a valid S3 uri: '' @ ''s3://b/a'' @ [CHR 0x0A] @ ''b''))"
proof
  show "path_style_form (''s3://b/a'' @ [CHR 0x0A] @ ''b'')"
    unfolding path_style_form_def
    by (rule exI [of _ "CHR ''s''"], rule exI [of _ "''b''"],
        rule exI [of _ "''a'' @ [CHR 0x0A] @ ''b''"]) simp
  show "parse_s3_uri (''s3://b/a'' @ [CHR 0x0A] @ ''b'') =
     Inl (ValueError (''Not a valid S3 uri: '' @ ''s3://b/a'' @ [CHR 0x0A] @ ''b''))"
    by (simp add: parse_eval)
qed

text \<open>
  C6. \<^verbatim>\<open>construct_s3_uri\<close> raises exactly when there is no segment, and what it raises
  then is \<^verbatim>\<open>ValueError\<close>; for every non-empty sequence of segments it returns
  \<^verbatim>\<open>s3://\<close>, the bucket, \<^verbatim>\<open>/\<close> and the segments joined by \<^verbatim>\<open>/\<close>.
\<close>

theorem construct_s3_uri_raises_iff_empty:
  "((\<exists>e. construct_s3_uri bucket dirs = Inl e) = (dirs = [])) \<and>
   (dirs = [] \<longrightarrow>
      construct_s3_uri bucket dirs = Inl (ValueError (''Not a valid S3 location: s3://'' @ bucket))) \<and>
   (dirs \<noteq> [] \<longrightarrow>
      construct_s3_uri bucket dirs = Inr (''s3://'' @ bucket @ ''/'' @ join ''/'' dirs) \<and>
      join ''/'' dirs = hd dirs @ concat (map (\<lambda>d. ''/'' @ d) (tl dirs)))"
  by (cases dirs) (simp_all add: construct_s3_uri_def join_Cons)

text \<open>No segment, and three segments.\<close>

theorem construct_s3_uri_raises_iff_empty_witness:
  "construct_s3_uri ''b'' [] = Inl (ValueError ''Not a valid S3 location: s3://b'') \<and>
   construct_s3_uri ''b'' [''x'', ''y'', ''z''] = Inr ''s3://b/x/y/z''"
  using construct_s3_uri_raises_iff_empty [of "''b''" "[]"]
    construct_s3_uri_raises_iff_empty [of "''b''" "[''x'', ''y'', ''z'']"]
  by simp

text \<open>
  C10. \<^verbatim>\<open>construct_s3_uri\<close> looks at neither the bucket nor the segments: with at least
  one segment it returns the interpolated string for every bucket, the empty one and
  those with \<^verbatim>\<open>.\<close>, \<^verbatim>\<open>/\<close> or a space included. Some of these strings
  \<^verbatim>\<open>parse_s3_uri\<close> rejects, and one it reads with another bucket.
\<close>

theorem construct_s3_uri_no_validation:
  "(dirs \<noteq> [] \<longrightarrow>
      construct_s3_uri bucket dirs = Inr (''s3://'' @ bucket @ ''/'' @ join ''/'' dirs)) \<and>
   construct_s3_uri [] [''k''] = Inr ''s3:///k'' \<and>
   parse_s3_uri ''s3:///k'' = Inl (ValueError ''Not a valid S3 uri: s3:///k'') \<and>
   construct_s3_uri ''my.bucket'' [''k''] = Inr ''s3://my.bucket/k'' \<and>
   parse_s3_uri ''s3://my.bucket/k'' = Inl (ValueError ''Not a valid S3 uri: s3://my.bucket/k'') \<and>
   construct_s3_uri ''a/b'' [''c/d''] = Inr ''s3://a/b/c/d'' \<and>
   parse_s3_uri ''s3://a/b/c/d'' = Inr (''a'', ''b/c/d'') \<and>
   construct_s3_uri ''a b'' [''k''] = Inr ''s3://a b/k''"
  by (cases dirs) (simp_all add: parse_eval)

text \<open>A bucket with a space, a segment with a slash and an empty segment.\<close>

theorem construct_s3_uri_no_validation_witness:
  "construct_s3_uri ''my bucket'' [''a/b'', [], ''c''] = Inr ''s3://my bucket/a/b//c''"
  using construct_s3_uri_no_validation [of "[''a/b'', [], ''c'']" "''my bucket''"] by simp

section \<open>Properties of \<^verbatim>\<open>replace\<close> and of the copy loop\<close>

lemma replace_occ_zero: "replace_occ old new (Some 0) s = s"
  by (cases s) simp_all

lemma replace_occ_first:
  assumes "old \<noteq> []"
    and "\<forall>i<length pre. take (length old) (drop i (pre @ old @ post)) \<noteq> old"
  shows "replace_occ old new (Some 1) (pre @ old @ post) = pre @ new @ post"
  using assms(2)
proof (induction pre)
  case Nil
  obtain c cs where old: "old = c # cs" using assms(1) by (cases old) auto
  show ?case by (simp add: old replace_occ_zero)
next
  case (Cons p pre)
  have "take (length old) (drop 0 ((p # pre) @ old @ post)) \<noteq> old"
    using Cons.prems by blast
  then have no: "take (length old) (p # pre @ old @ post) \<noteq> old" by simp
  have "\<forall>i<length pre. take (length old) (drop i (pre @ old @ post)) \<noteq> old"
  proof (intro allI impI)
    fix i assume "i < length pre"
    then have "Suc i < length (p # pre)" by simp
    then have "take (length old) (drop (Suc i) ((p # pre) @ old @ post)) \<noteq> old"
      using Cons.prems by blast
    then show "take (length old) (drop i (pre @ old @ post)) \<noteq> old" by simp
  qed
  then have "replace_occ old new (Some 1) (pre @ old @ post) = pre @ new @ post"
    by (rule Cons.IH)
  then show ?case using no by simp
qed

lemma replace_occ_absent:
  assumes "\<forall>i. take (length old) (drop i s) \<noteq> old"
  shows "replace_occ old new cnt s = s"
  using assms
proof (induction s)
  case Nil
  show ?case by simp
next
  case (Cons c cs)
  have "take (length old) (drop 0 (c # cs)) \<noteq> old" using Cons.prems by blast
  then have no: "take (length old) (c # cs) \<noteq> old" by simp
  have "\<forall>i. take (length old) (drop i cs) \<noteq> old"
  proof
    fix i
    have "take (length old) (drop (Suc i) (c # cs)) \<noteq> old" using Cons.prems by blast
    then show "take (length old) (drop i cs) \<noteq> old" by simp
  qed
  then have "replace_occ old new cnt cs = cs" by (rule Cons.IH)
  then show ?case using no by simp
qed

lemma copy_keys_trace:
  "\<exists>n r. n \<le> length keys \<and>
     copy_keys cl sb sp db dp keys t =
       (r, t @ map (\<lambda>key. Copy sb key db (str_replace sp dp (Some 1) key)) (take n keys)) \<and>
     (r = Inr () \<longrightarrow> n = length keys)"
proof (induction keys arbitrary: t)
  case Nil
  show ?case by simp
next
  case (Cons key keys)
  let ?c = "Copy sb key db (str_replace sp dp (Some 1) key)"
  show ?case
  proof (cases "copy cl t sb key db (str_replace sp dp (Some 1) key)")
    case (Inl e)
    show ?thesis
      by (rule exI [of _ 1], rule exI [of _ "Inl e"]) (use Inl in simp)
  next
    case (Inr u)
    obtain n r where n: "n \<le> length keys"
      "copy_keys cl sb sp db dp keys (t @ [?c]) =
         (r, (t @ [?c]) @ map (\<lambda>key. Copy sb key db (str_replace sp dp (Some 1) key)) (take n keys))"
      "r = Inr () \<longrightarrow> n = length keys"
      using Cons.IH [of "t @ [?c]"] by blast
    show ?thesis
      by (rule exI [of _ "Suc n"], rule exI [of _ r]) (use n Inr in simp)
  qed
qed

lemma copy_keys_all:
  assumes "\<And>h a b c d. copy cl h a b c d = Inr ()"
  shows "copy_keys cl sb sp db dp keys t =
       (Inr (), t @ map (\<lambda>key. Copy sb key db (str_replace sp dp (Some 1) key)) keys)"
  by (induction keys arbitrary: t) (simp_all add: assms)

section \<open>Claims about copying\<close>

text \<open>
  C8. When the two paths differ and parse, and the listing returns its keys,
  \<^verbatim>\<open>copy_s3_directory\<close> requests, for the keys in order and until a request fails, the
  copy of each key to that key with \<^verbatim>\<open>replace(source_prefix, destination_prefix, 1)\<close>
  applied; that replaces the first occurrence of the source prefix alone, whatever
  follows it staying as it is, and leaves a key without an occurrence unchanged.
\<close>

theorem copy_s3_directory_replaces_first_occurrence:
  assumes "source_s3_path \<noteq> destination_s3_path"
    and "parse_s3_uri source_s3_path = Inr (source_bucket, source_prefix)"
    and "parse_s3_uri destination_s3_path = Inr (destination_bucket, destination_prefix)"
    and "list_keys cl source_bucket source_prefix t = Some (Inr source_keys, t')"
  shows
    "(\<exists>n r. n \<le> length source_keys \<and>
        copy_s3_directory cl source_s3_path destination_s3_path t =
          Some (r, t' @ map (\<lambda>key. Copy source_bucket key destination_bucket
                                  (str_replace source_prefix destination_prefix (Some 1) key))
                          (take n source_keys)) \<and>
        (r = Inr () \<longrightarrow> n = length source_keys)) \<and>
     ((\<forall>h a b c d. copy cl h a b c d = Inr ()) \<longrightarrow>
        copy_s3_directory cl source_s3_path destination_s3_path t =
          Some (Inr (), t' @ map (\<lambda>key. Copy source_bucket key destination_bucket
                                  (str_replace source_prefix destination_prefix (Some 1) key))
                               source_keys)) \<and>
     (\<forall>pre post.
        (\<forall>i<length pre. take (length source_prefix) (drop i (pre @ source_prefix @ post))
                          \<noteq> source_prefix) \<longrightarrow>
        str_replace source_prefix destination_prefix (Some 1) (pre @ source_prefix @ post) =
          pre @ destination_prefix @ post) \<and>
     (\<forall>key.
        (\<forall>i. take (length source_prefix) (drop i key) \<noteq> source_prefix) \<longrightarrow>
        str_replace source_prefix destination_prefix (Some 1) key = key)"
proof -
  have run: "copy_s3_directory cl source_s3_path destination_s3_path t =
      Some (copy_keys cl source_bucket source_prefix destination_bucket destination_prefix
              source_keys t')"
    using assms by (simp add: copy_s3_directory_def)
  have ne: "source_prefix \<noteq> []"
    using parse_s3_uri_Inr_props [OF assms(2)] by blast
  have some: "\<exists>n r. n \<le> length source_keys \<and>
        copy_s3_directory cl source_s3_path destination_s3_path t =
          Some (r, t' @ map (\<lambda>key. Copy source_bucket key destination_bucket
                                  (str_replace source_prefix destination_prefix (Some 1) key))
                          (take n source_keys)) \<and>
        (r = Inr () \<longrightarrow> n = length source_keys)"
    unfolding run
    using copy_keys_trace [of source_keys cl source_bucket source_prefix destination_bucket
                             destination_prefix t']
    by simp
  have all: "copy_s3_directory cl source_s3_path destination_s3_path t =
          Some (Inr (), t' @ map (\<lambda>key. Copy source_bucket key destination_bucket
                                  (str_replace source_prefix destination_prefix (Some 1) key))
                               source_keys)"
    if "\<forall>h a b c d. copy cl h a b c d = Inr ()"
    unfolding run using that by (simp add: copy_keys_all)
  have first: "str_replace source_prefix destination_prefix (Some 1) (pre @ source_prefix @ post) =
          pre @ destination_prefix @ post"
    if "\<forall>i<length pre. take (length source_prefix) (drop i (pre @ source_prefix @ post))
                          \<noteq> source_prefix" for pre post
    using replace_occ_first [OF ne that] ne by (simp add: str_replace_def)
  have absent: "str_replace source_prefix destination_prefix (Some 1) key = key"
    if "\<forall>i. take (length source_prefix) (drop i key) \<noteq> source_prefix" for key
    using replace_occ_absent [OF that] ne by (simp add: str_replace_def)
  show ?thesis
    using some all first absent by blast
qed

lemma list_keys_listing_client:
  "list_keys (listing_client keys) bucket prfx t = Some (Inr keys, t @ [ListObjectsV2 bucket prfx None])"
  by (simp add: list_keys_def listing_client_def list_keys_pages.simps)

text \<open>Two keys, the second with the prefix a second time inside.\<close>

theorem copy_s3_directory_replaces_first_occurrence_witness:
  "copy_s3_directory (listing_client [''x/a'', ''x/b/x/c'']) ''s3://b/x'' ''s3://c/y'' [] =
     Some (Inr (), [ListObjectsV2 ''b'' ''x'' None,
                    Copy ''b'' ''x/a'' ''c'' ''y/a'',
                    Copy ''b'' ''x/b/x/c'' ''c'' ''y/b/x/c''])"
proof -
  have p1: "parse_s3_uri ''s3://b/x'' = Inr (''b'', ''x'')" by (simp add: parse_eval)
  have p2: "parse_s3_uri ''s3://c/y'' = Inr (''c'', ''y'')" by (simp add: parse_eval)
  have ne: "''s3://b/x'' \<noteq> ''s3://c/y''" by simp
  have ok: "\<forall>h a b c d. copy (listing_client [''x/a'', ''x/b/x/c'']) h a b c d = Inr ()"
    by (simp add: listing_client_def)
  note inst = copy_s3_directory_replaces_first_occurrence
    [OF ne p1 p2 list_keys_listing_client [of "[''x/a'', ''x/b/x/c'']" "''b''" "''x''" "[]"]]
  have run: "copy_s3_directory (listing_client [''x/a'', ''x/b/x/c'']) ''s3://b/x'' ''s3://c/y'' [] =
     Some (Inr (), [] @ [ListObjectsV2 ''b'' ''x'' None] @
       map (\<lambda>key. Copy ''b'' key ''c'' (str_replace ''x'' ''y'' (Some 1) key)) [''x/a'', ''x/b/x/c''])"
    using inst ok by simp
  have first: "str_replace ''x'' ''y'' (Some 1) (pre @ ''x'' @ post) = pre @ ''y'' @ post"
    if "\<forall>i<length pre. take (length ''x'') (drop i (pre @ ''x'' @ post)) \<noteq> ''x''" for pre post
    using inst that by blast
  have r1: "str_replace ''x'' ''y'' (Some 1) ''x/a'' = ''y/a''"
    using first [of "[]" "''/a''"] by simp
  have r2: "str_replace ''x'' ''y'' (Some 1) ''x/b/x/c'' = ''y/b/x/c''"
    using first [of "[]" "''/b/x/c''"] by simp
  show ?thesis using run r1 r2 by simp
qed

text \<open>
  C9. With the same string as source and destination, \<^verbatim>\<open>copy_s3_object\<close> and
  \<^verbatim>\<open>copy_s3_directory\<close> return at once: no request is added to the history, and, the
  string not being parsed, none is raised for a string that is no URI.
\<close>

theorem copy_identical_uris_is_noop:
  "copy_s3_object cl uri uri t = (Inr (), t) \<and>
   copy_s3_directory cl uri uri t = Some (Inr (), t)"
  by (simp add: copy_s3_object_def copy_s3_directory_def)

text \<open>
  A string that is no URI and a client that refuses every request; with two different
  strings the parse and the request do happen.
\<close>

theorem copy_identical_uris_is_noop_witness:
  "copy_s3_object failing_client ''not-a-uri'' ''not-a-uri'' [] = (Inr (), []) \<and>
   copy_s3_directory failing_client ''not-a-uri'' ''not-a-uri'' [] = Some (Inr (), []) \<and>
   copy_s3_object failing_client ''not-a-uri'' ''s3://b/k'' [] =
     (Inl (ValueError ''Not a valid S3 uri: not-a-uri''), []) \<and>
   copy_s3_object failing_client ''s3://b/j'' ''s3://b/k'' [] =
     (Inl (ClientError ''AccessDenied''), [Copy ''b'' ''j'' ''b'' ''k''])"
  using copy_identical_uris_is_noop [of failing_client "''not-a-uri''" "[]"]
  by (simp add: copy_s3_object_def parse_eval failing_client_def)

section \<open>Properties of the selection\<close>




































lemmas upload_eval = upload_local_data_def is_absolute_def path_root_def path_parts_def path_str_def
  as_posix_def glob_def upload_to_s3_def str_replace_def parse_eval listing_client_def
  docstring_tree_def nested_tree_def selected_files_def Let_def fnmatch_def
  is_wildcard_pattern_def work_in_def

section \<open>Claims about uploading\<close>

text \<open>
  C2. For the file \<^verbatim>\<open>input/input.csv\<close> and the prefix \<^verbatim>\<open>input\<close>, \<^verbatim>\<open>upload_local_data\<close>
  replaces both occurrences of the prefix, since \<^verbatim>\<open>replace\<close> is called without a
  count; with the count 1 of \<^verbatim>\<open>copy_s3_directory\<close> the first alone would be replaced.
\<close>

theorem upload_local_data_replaces_every_occurrence:
  "upload_local_data brackets (work_in nested_tree) (listing_client [])
      ''input'' ''s3://my-bucket/dir/input'' [] =
     (Inr (),
      [UploadFile ''input/input.csv'' ''my-bucket'' ''dir/input/s3://my-bucket/dir/input.csv'']) \<and>
   str_replace (as_posix ''input'') ''s3://my-bucket/dir/input'' None ''input/input.csv'' =
     ''s3://my-bucket/dir/input/s3://my-bucket/dir/input.csv'' \<and>
   str_replace (as_posix ''input'') ''s3://my-bucket/dir/input'' (Some 1) ''input/input.csv'' =
     ''s3://my-bucket/dir/input/input.csv''"
  by (simp add: upload_eval)




end
